theory Spec2Isabelle
  imports Main "HOL-Library.AList" "HOL-Library.Word"
begin

section \<open>JavaScript strings and the primitives used by the matchers\<close>

text \<open>
  A JavaScript string is a sequence of UTF-16 code units, and \<open>length\<close>, \<open>===\<close>,
  \<open>includes\<close>, \<open>split\<close> and \<open>trim\<close> work on code units. \<open>js\<close> gives the code units of an
  ASCII literal.
\<close>

type_synonym code_unit = "16 word"

type_synonym jsstring = "code_unit list"

definition js :: "string \<Rightarrow> jsstring" where
  "js s = map of_char s"

text \<open>
  White space is what \<open>String.prototype.trim\<close> strips and what the class \<open>\s\<close> of a
  regular expression matches, the white space and the line terminators of ECMAScript:
  U+0009 to U+000D, U+0020, U+00A0, U+1680, U+2000 to U+200A, U+2028, U+2029, U+202F,
  U+205F, U+3000 and U+FEFF.
\<close>

definition isSpace :: "code_unit \<Rightarrow> bool" where
  "isSpace c \<longleftrightarrow>
     (0x0009 \<le> c \<and> c \<le> 0x000D) \<or> c = 0x0020 \<or> c = 0x00A0 \<or> c = 0x1680
     \<or> (0x2000 \<le> c \<and> c \<le> 0x200A) \<or> c = 0x2028 \<or> c = 0x2029 \<or> c = 0x202F
     \<or> c = 0x205F \<or> c = 0x3000 \<or> c = 0xFEFF"

text \<open>
  \<open>toLowerCase\<close> maps the letters A to Z to a to z. The case mappings of code units
  outside ASCII are not part of this model, which keeps such code units as they are; the
  statements below that quantify over all strings do not depend on how a string is
  lower-cased, and the evaluated ones are at ASCII inputs.
\<close>

definition lowerChar :: "code_unit \<Rightarrow> code_unit" where
  "lowerChar c = (if 0x41 \<le> c \<and> c \<le> 0x5A then c + 0x20 else c)"

definition toLowerCase :: "jsstring \<Rightarrow> jsstring" where
  "toLowerCase s = map lowerChar s"

definition trim :: "jsstring \<Rightarrow> jsstring" where
  "trim s = rev (dropWhile isSpace (rev (dropWhile isSpace s)))"

text \<open>
  \<open>s.split(/\s+/)\<close> cuts at every maximal run of white space. A string that starts or
  ends with white space yields an empty first or last piece, and the empty string yields
  one empty piece. The flag of \<open>splitGo\<close> says that the scan is inside a run of white space,
  the second argument is the current piece, reversed.
\<close>

fun splitGo :: "bool \<Rightarrow> jsstring \<Rightarrow> jsstring \<Rightarrow> jsstring list" where
  "splitGo inWs cur [] = [rev cur]"
| "splitGo inWs cur (c # cs) =
     (if isSpace c
      then (if inWs then splitGo True cur cs else rev cur # splitGo True [] cs)
      else splitGo False (c # cur) cs)"

definition splitWs :: "jsstring \<Rightarrow> jsstring list" where
  "splitWs s = splitGo False [] s"

fun startsWith :: "jsstring \<Rightarrow> jsstring \<Rightarrow> bool" where
  "startsWith s [] = True"
| "startsWith [] (d # t) = False"
| "startsWith (c # s) (d # t) = (c = d \<and> startsWith s t)"

text \<open>\<open>includesStr s t\<close> is \<open>s.includes(t)\<close>: \<open>t\<close> occurs in \<open>s\<close> as a contiguous piece.\<close>

fun includesStr :: "jsstring \<Rightarrow> jsstring \<Rightarrow> bool" where
  "includesStr [] t = (t = [])"
| "includesStr (c # s) t = (startsWith (c # s) t \<or> includesStr s t)"

section \<open>Data model of the matchers\<close>

text \<open>
  The FAQ entries and the site map are read from JSON files that are not part of the
  sources; every function below takes them as an argument.
\<close>

record faq_entry =
  faq_id :: nat
  question :: jsstring
  answer :: jsstring
  category :: jsstring
  faq_keywords :: "jsstring list"

record nav_item =
  nav_url :: jsstring
  nav_intent :: jsstring
  nav_keywords :: "jsstring list"

text \<open>The object \<open>{...faq, matched, score, matchedKeywords}\<close> built by \<open>matchFAQ\<close>.\<close>

record faq_match =
  fm_faq :: faq_entry
  fm_matched :: bool
  fm_score :: nat
  fm_matchedKeywords :: "jsstring list"

text \<open>The object \<open>{url, intent, matched, score, matchedKeywords}\<close> built by \<open>keywordMatch\<close>.\<close>

record nav_match =
  nm_url :: jsstring
  nm_intent :: jsstring
  nm_matched :: bool
  nm_score :: nat
  nm_matchedKeywords :: "jsstring list"

section \<open>Lexical matching\<close>

definition faqStopWords :: "jsstring list" where
  "faqStopWords =
     map js [''uchun'', ''bilan'', ''dan'', ''ga'', ''ni'', ''ning'', ''lar'', ''chi'', ''nima'',
             ''qanday'']"

definition navStopWords :: "jsstring list" where
  "navStopWords = map js [''uchun'', ''bilan'', ''dan'', ''ga'', ''ni'', ''ning'', ''lar'', ''chi'']"

text \<open>
  The content words of the lower-cased, trimmed query: the pieces longer than two
  characters that are not in the stop-word list of the calling matcher.
\<close>

definition contentWords :: "jsstring list \<Rightarrow> jsstring \<Rightarrow> jsstring list" where
  "contentWords stopWords q =
     filter (\<lambda>word. length word > 2 \<and> \<not> List.member stopWords word) (splitWs q)"

definition fuzzy :: "jsstring list \<Rightarrow> jsstring \<Rightarrow> bool" where
  "fuzzy queryWords kw = list_ex (\<lambda>qw. includesStr qw kw \<or> includesStr kw qw) queryWords"

text \<open>
  One round of the loop over the keywords of an item. The body is the same text in
  \<open>matchFAQ\<close> (lines 51 to 86) and in \<open>keywordMatch\<close> (lines 127 to 155); the state is the
  pair of the running \<open>score\<close> and the list \<open>matchedKeywords\<close>.
\<close>

definition keywordStep ::
  "jsstring \<Rightarrow> jsstring list \<Rightarrow> nat \<times> jsstring list \<Rightarrow> jsstring \<Rightarrow> nat \<times> jsstring list" where
  "keywordStep q queryWords st keyword =
     (let score = fst st; matchedKeywords = snd st; keywordLower = toLowerCase keyword in
      if q = keywordLower then (score + 100, matchedKeywords @ [keyword])
      else if includesStr q keywordLower \<or> includesStr keywordLower q
      then (score + 50, matchedKeywords @ [keyword])
      else
        (let keywordWords = splitWs keywordLower;
             allWordsMatch = list_all (fuzzy queryWords) keywordWords in
         if allWordsMatch \<and> length keywordWords > 1
         then (score + 30 * length keywordWords, matchedKeywords @ [keyword])
         else if length keywordWords = 1 \<and> fuzzy queryWords (keywordWords ! 0)
         then (score + 10, matchedKeywords @ [keyword])
         else (score, matchedKeywords)))"

definition scoreKeywords :: "jsstring \<Rightarrow> jsstring list \<Rightarrow> jsstring list \<Rightarrow> nat \<times> jsstring list" where
  "scoreKeywords q queryWords keywords = foldl (keywordStep q queryWords) (0, []) keywords"

text \<open>
  Which branch of the loop body a keyword takes, and what the keyword adds to the score.
  The conditions of \<open>firedRule\<close> are those of \<open>keywordStep\<close>, in the same order.
\<close>

datatype rule = Exact | Substring | MultiWord | SingleWord | NoRule

definition firedRule :: "jsstring \<Rightarrow> jsstring list \<Rightarrow> jsstring \<Rightarrow> rule" where
  "firedRule q queryWords keyword =
     (let keywordLower = toLowerCase keyword; keywordWords = splitWs keywordLower in
      if q = keywordLower then Exact
      else if includesStr q keywordLower \<or> includesStr keywordLower q then Substring
      else if list_all (fuzzy queryWords) keywordWords \<and> length keywordWords > 1 then MultiWord
      else if length keywordWords = 1 \<and> fuzzy queryWords (keywordWords ! 0) then SingleWord
      else NoRule)"

definition contribution :: "jsstring \<Rightarrow> jsstring list \<Rightarrow> jsstring \<Rightarrow> nat" where
  "contribution q queryWords keyword = fst (keywordStep q queryWords (0, []) keyword)"

definition wordCount :: "jsstring \<Rightarrow> nat" where
  "wordCount keyword = length (splitWs (toLowerCase keyword))"

text \<open>
  One round of the loop of \<open>matchFAQ\<close> over the FAQ entries; the state is the pair of
  \<open>bestMatch\<close> (\<open>None\<close> for \<open>null\<close>) and \<open>highestScore\<close>.
\<close>

definition faqStep ::
  "jsstring \<Rightarrow> jsstring list \<Rightarrow> faq_match option \<times> nat \<Rightarrow> faq_entry \<Rightarrow> faq_match option \<times> nat" where
  "faqStep q queryWords st faq =
     (let bestMatch = fst st; highestScore = snd st;
          r = scoreKeywords q queryWords (faq_keywords faq);
          score = fst r; matchedKeywords = snd r in
      if score > highestScore \<and> score \<ge> 10
      then (Some \<lparr>fm_faq = faq, fm_matched = True, fm_score = score,
                   fm_matchedKeywords = matchedKeywords\<rparr>, score)
      else (bestMatch, highestScore))"

definition matchFAQ :: "faq_entry list \<Rightarrow> jsstring \<Rightarrow> faq_match option" where
  "matchFAQ faqs query =
     (let q = trim (toLowerCase query);
          queryWords = contentWords faqStopWords q in
      fst (foldl (faqStep q queryWords) (None, 0) faqs))"

definition navStep ::
  "jsstring \<Rightarrow> jsstring list \<Rightarrow> nav_match option \<times> nat \<Rightarrow> nav_item \<Rightarrow> nav_match option \<times> nat" where
  "navStep q queryWords st item =
     (let bestMatch = fst st; highestScore = snd st;
          r = scoreKeywords q queryWords (nav_keywords item);
          score = fst r; matchedKeywords = snd r in
      if score > highestScore \<and> score > 0
      then (Some \<lparr>nm_url = nav_url item, nm_intent = nav_intent item, nm_matched = True,
                   nm_score = score, nm_matchedKeywords = matchedKeywords\<rparr>, score)
      else (bestMatch, highestScore))"

definition keywordMatch :: "nav_item list \<Rightarrow> jsstring \<Rightarrow> nav_match option" where
  "keywordMatch siteMap query =
     (let q = trim (toLowerCase query);
          queryWords = contentWords navStopWords q;
          r = foldl (navStep q queryWords) (None, 0) siteMap;
          bestMatch = fst r; highestScore = snd r in
      if bestMatch \<noteq> None \<and> highestScore \<ge> 10 then bestMatch else None)"

text \<open>
  The pair of total score and matched keywords that each matcher computes for a keyword
  list, as a function of the raw query.
\<close>

definition faqScoring :: "jsstring \<Rightarrow> jsstring list \<Rightarrow> nat \<times> jsstring list" where
  "faqScoring query keywords =
     (let q = trim (toLowerCase query) in scoreKeywords q (contentWords faqStopWords q) keywords)"

definition navScoring :: "jsstring \<Rightarrow> jsstring list \<Rightarrow> nat \<times> jsstring list" where
  "navScoring query keywords =
     (let q = trim (toLowerCase query) in scoreKeywords q (contentWords navStopWords q) keywords)"

section \<open>AI fallback and the orchestrator\<close>

text \<open>
  The hosted model is an external collaborator. The call inside the \<open>try\<close> block of
  \<open>aiMatch\<close> either yields the text of the first choice or raises (a rejected request, a
  missing choice, a missing content): \<open>Threw\<close> stands for every exception raised inside
  the block. The prompt is built from the query and, for each item of the site map, its
  intent, its url and its first five keywords, so the classifier is a function of these.
\<close>

datatype ai_reply = Threw | Content jsstring

type_synonym classifier = "(jsstring \<times> jsstring \<times> jsstring list) list \<Rightarrow> jsstring \<Rightarrow> ai_reply"

definition sections :: "nav_item list \<Rightarrow> (jsstring \<times> jsstring \<times> jsstring list) list" where
  "sections siteMap =
     map (\<lambda>item. (nav_intent item, nav_url item, take 5 (nav_keywords item))) siteMap"

text \<open>The object \<open>{url, intent, matched}\<close> returned by \<open>aiMatch\<close>; \<open>intent\<close> may be missing.\<close>

record ai_result =
  ai_url :: jsstring
  ai_intent :: "jsstring option"
  ai_matched :: bool

definition aiNotFound :: ai_result where
  "aiNotFound = \<lparr>ai_url = js ''NOT_FOUND'', ai_intent = None, ai_matched = False\<rparr>"

definition aiMatch :: "classifier \<Rightarrow> nav_item list \<Rightarrow> jsstring \<Rightarrow> ai_result" where
  "aiMatch ai siteMap query =
     (case ai (sections siteMap) query of
        Threw \<Rightarrow> aiNotFound
      | Content c \<Rightarrow>
          (let text = trim c in
           if text = js ''NOT_FOUND'' then aiNotFound
           else
             (case find (\<lambda>item. nav_url item = text) siteMap of
                None \<Rightarrow> aiNotFound
              | Some foundItem \<Rightarrow>
                  \<lparr>ai_url = text, ai_intent = Some (nav_intent foundItem), ai_matched = True\<rparr>)))"

text \<open>
  The four objects \<open>detectNavigation\<close> returns, one constructor for each \<open>return\<close>, and
  the value of their field \<open>type\<close>.
\<close>

datatype decision =
    FAQ faq_match
  | NAVIGATION_keyword nav_match
  | NAVIGATION_ai ai_result
  | NOT_FOUND

fun decisionType :: "decision \<Rightarrow> string" where
  "decisionType (FAQ f) = ''FAQ''"
| "decisionType (NAVIGATION_keyword k) = ''NAVIGATION''"
| "decisionType (NAVIGATION_ai a) = ''NAVIGATION''"
| "decisionType NOT_FOUND = ''NOT_FOUND''"

text \<open>
  To speak about which stages run, \<open>detectNavigation\<close> returns, next to its decision, the
  list of the calls it made, in order.
\<close>

datatype stage = CallMatchFAQ | CallKeywordMatch | CallAiMatch

definition detectNavigation ::
  "classifier \<Rightarrow> faq_entry list \<Rightarrow> nav_item list \<Rightarrow> jsstring \<Rightarrow> decision \<times> stage list" where
  "detectNavigation ai faqs siteMap query =
     (let faqResult = matchFAQ faqs query; calls = [CallMatchFAQ] in
      case faqResult of
        Some f \<Rightarrow> (FAQ f, calls)
      | None \<Rightarrow>
          (let keywordResult = keywordMatch siteMap query;
               calls = calls @ [CallKeywordMatch] in
           case keywordResult of
             Some k \<Rightarrow> (NAVIGATION_keyword k, calls)
           | None \<Rightarrow>
               (let aiResult = aiMatch ai siteMap query;
                    calls = calls @ [CallAiMatch] in
                if ai_matched aiResult then (NAVIGATION_ai aiResult, calls)
                else (NOT_FOUND, calls))))"

section \<open>Rate limiter\<close>

text \<open>
  Time stamps are epoch milliseconds, as \<open>Date.now()\<close> gives them. The store is the
  \<open>Map\<close> \<open>requestStore\<close>, kept as an association list in insertion order; the durable state
  is the content of the file, \<open>None\<close> while there is no readable file. The middleware
  derives the identifier from the address and the user agent of the request (lines 72 to
  74); the functions below take the identifier and the clock reading as arguments.
\<close>

record rl_record =
  rec_count :: int
  rec_firstRequest :: int
  rec_lastRequest :: int

type_synonym rl_store = "(string \<times> rl_record) list"

record rl_state =
  requestStore :: rl_store
  rateLimitFile :: "rl_store option"

definition MAX_REQUESTS :: int where
  "MAX_REQUESTS = 30"

definition WINDOW_MS :: int where
  "WINDOW_MS = 12 * 60 * 60 * 1000"

text \<open>
  \<open>saveRateLimits\<close> rewrites the file from the store; a failing write is caught and
  logged, and leaves the file as it was. The flag says whether the write succeeds.
\<close>

definition saveRateLimits :: "bool \<Rightarrow> rl_state \<Rightarrow> rl_state" where
  "saveRateLimits writeOk st =
     (if writeOk then st\<lparr>rateLimitFile := Some (requestStore st)\<rparr> else st)"

definition loadRateLimits :: "rl_state \<Rightarrow> rl_state" where
  "loadRateLimits st =
     (case rateLimitFile st of
        None \<Rightarrow> st
      | Some data \<Rightarrow>
          st\<lparr>requestStore :=
               foldl (\<lambda>store (key, val). AList.update key val store) (requestStore st) data\<rparr>)"

text \<open>A start of the process: the store is a new, empty \<open>Map\<close>, filled from the file.\<close>

definition startup :: "rl_state \<Rightarrow> rl_state" where
  "startup st = loadRateLimits (st\<lparr>requestStore := []\<rparr>)"

text \<open>The hourly sweep; the loop state is the store and the counter \<open>cleaned\<close>.\<close>

definition sweepStep :: "int \<Rightarrow> rl_store \<times> nat \<Rightarrow> string \<times> rl_record \<Rightarrow> rl_store \<times> nat" where
  "sweepStep now acc entry =
     (if now - rec_firstRequest (snd entry) > WINDOW_MS
      then (AList.delete (fst entry) (fst acc), snd acc + 1)
      else acc)"

definition sweep :: "bool \<Rightarrow> int \<Rightarrow> rl_state \<Rightarrow> rl_state" where
  "sweep writeOk now st =
     (let r = foldl (sweepStep now) (requestStore st, 0) (requestStore st);
          st' = st\<lparr>requestStore := fst r\<rparr> in
      if snd r > 0 then saveRateLimits writeOk st' else st')"

text \<open>
  What the middleware does with the request: it calls \<open>next()\<close>, with the three rate-limit
  headers set or without them, or it answers 429. The reset time is kept as a time stamp;
  the code renders it as an ISO-8601 string.
\<close>

record rl_headers =
  hdr_limit :: int
  hdr_remaining :: int
  hdr_reset :: int

record rl_denial =
  den_error :: string
  den_hoursLeft :: int
  den_resetAt :: int
  den_remaining :: int

datatype rl_outcome = Next "rl_headers option" | Status429 rl_denial

definition freshRecord :: "int \<Rightarrow> rl_record" where
  "freshRecord now = \<lparr>rec_count = 1, rec_firstRequest = now, rec_lastRequest = now\<rparr>"

definition rateLimiter :: "bool \<Rightarrow> string \<Rightarrow> int \<Rightarrow> rl_state \<Rightarrow> rl_outcome \<times> rl_state" where
  "rateLimiter writeOk identifier now st =
     (case map_of (requestStore st) identifier of
        None \<Rightarrow>
          (Next None,
           saveRateLimits writeOk
             (st\<lparr>requestStore := AList.update identifier (freshRecord now) (requestStore st)\<rparr>))
      | Some record \<Rightarrow>
          if now - rec_firstRequest record > WINDOW_MS
          then
            (Next None,
             saveRateLimits writeOk
               (st\<lparr>requestStore := AList.update identifier (freshRecord now) (requestStore st)\<rparr>))
          else if rec_count record \<ge> MAX_REQUESTS
          then
            (let resetTime = rec_firstRequest record + WINDOW_MS;
                 hoursLeft = - ((- (resetTime - now)) div (1000 * 60 * 60)) in
             (Status429 \<lparr>den_error = ''RATE_LIMIT_EXCEEDED'', den_hoursLeft = hoursLeft,
                          den_resetAt = resetTime, den_remaining = 0\<rparr>, st))
          else
            (let record' = record\<lparr>rec_count := rec_count record + 1, rec_lastRequest := now\<rparr>;
                 st' = st\<lparr>requestStore := AList.update identifier record' (requestStore st)\<rparr>;
                 st'' = (if rec_count record' mod 5 = 0 then saveRateLimits writeOk st' else st') in
             (Next (Some \<lparr>hdr_limit = MAX_REQUESTS,
                           hdr_remaining = MAX_REQUESTS - rec_count record',
                           hdr_reset = rec_firstRequest record' + WINDOW_MS\<rparr>), st'')))"

record rl_status =
  stat_remaining :: int
  stat_resetAt :: "int option"
  stat_isLimited :: bool

text \<open>\<open>getRateLimitStatus\<close> returns the state next to its answer, to show what it leaves of it.\<close>

definition getRateLimitStatus :: "string \<Rightarrow> int \<Rightarrow> rl_state \<Rightarrow> rl_status \<times> rl_state" where
  "getRateLimitStatus identifier now st =
     (case map_of (requestStore st) identifier of
        None \<Rightarrow>
          (\<lparr>stat_remaining = MAX_REQUESTS, stat_resetAt = None, stat_isLimited = False\<rparr>, st)
      | Some record \<Rightarrow>
          if now - rec_firstRequest record > WINDOW_MS
          then (\<lparr>stat_remaining = MAX_REQUESTS, stat_resetAt = None, stat_isLimited = False\<rparr>, st)
          else
            (\<lparr>stat_remaining = max 0 (MAX_REQUESTS - rec_count record),
              stat_resetAt = Some (rec_firstRequest record + WINDOW_MS),
              stat_isLimited = (rec_count record \<ge> MAX_REQUESTS)\<rparr>, st))"

text \<open>
  The states the process can be in: it starts with an empty store and no file, serves
  requests, answers status queries, runs the sweep and may be started again.
\<close>

inductive reachable :: "rl_state \<Rightarrow> bool" where
  initial: "reachable \<lparr>requestStore = [], rateLimitFile = None\<rparr>"
| request: "reachable st \<Longrightarrow> reachable (snd (rateLimiter writeOk identifier now st))"
| status: "reachable st \<Longrightarrow> reachable (snd (getRateLimitStatus identifier now st))"
| swept: "reachable st \<Longrightarrow> reachable (sweep writeOk now st)"
| restart: "reachable st \<Longrightarrow> reachable (startup st)"

section \<open>Notions used to state the properties\<close>

text \<open>
  \<open>firstMax sc xs i\<close>: position \<open>i\<close> holds a maximal score of the list and every earlier
  position holds a strictly smaller one.
\<close>

definition firstMax :: "('a \<Rightarrow> nat) \<Rightarrow> 'a list \<Rightarrow> nat \<Rightarrow> bool" where
  "firstMax sc xs i \<longleftrightarrow>
     i < length xs \<and> (\<forall>j<length xs. sc (xs ! j) \<le> sc (xs ! i)) \<and> (\<forall>j<i. sc (xs ! j) < sc (xs ! i))"

text \<open>The match object that each matcher builds for an item it selects.\<close>

definition faqResult :: "jsstring \<Rightarrow> faq_entry \<Rightarrow> faq_match" where
  "faqResult query faq =
     \<lparr>fm_faq = faq, fm_matched = True, fm_score = fst (faqScoring query (faq_keywords faq)),
      fm_matchedKeywords = snd (faqScoring query (faq_keywords faq))\<rparr>"

definition navResult :: "jsstring \<Rightarrow> nav_item \<Rightarrow> nav_match" where
  "navResult query item =
     \<lparr>nm_url = nav_url item, nm_intent = nav_intent item, nm_matched = True,
      nm_score = fst (navScoring query (nav_keywords item)),
      nm_matchedKeywords = snd (navScoring query (nav_keywords item))\<rparr>"

text \<open>The bound on the counter, for a record, for a store and for store and file.\<close>

definition recordOk :: "rl_record \<Rightarrow> bool" where
  "recordOk r \<longleftrightarrow> 1 \<le> rec_count r \<and> rec_count r \<le> MAX_REQUESTS"

definition storeOk :: "rl_store \<Rightarrow> bool" where
  "storeOk store \<longleftrightarrow> (\<forall>entry\<in>set store. recordOk (snd entry))"

definition stateOk :: "rl_state \<Rightarrow> bool" where
  "stateOk st \<longleftrightarrow>
     storeOk (requestStore st)
     \<and> (case rateLimitFile st of None \<Rightarrow> True | Some data \<Rightarrow> storeOk data)"

text \<open>Inputs at which the properties are evaluated.\<close>

definition faqNarx :: faq_entry where
  "faqNarx = \<lparr>faq_id = 1, question = js ''Narx qancha?'', answer = js ''Narxlar'', category = js ''narx'',
              faq_keywords = [js ''narx'']\<rparr>"

definition faqNarx2 :: faq_entry where
  "faqNarx2 = \<lparr>faq_id = 2, question = js ''Narxlar?'', answer = js ''Narxlar'', category = js ''narx'',
               faq_keywords = [js ''narx'']\<rparr>"

definition navNarx :: nav_item where
  "navNarx = \<lparr>nav_url = js ''/narxlar'', nav_intent = js ''Narxlar'', nav_keywords = [js ''narx'']\<rparr>"

definition navAbout :: nav_item where
  "navAbout = \<lparr>nav_url = js ''/about'', nav_intent = js ''Biz haqimizda'', nav_keywords = [js ''kompaniya'']\<rparr>"

definition stateAtQuota :: rl_state where
  "stateAtQuota =
     \<lparr>requestStore = [(''10.0.0.1_abc'', \<lparr>rec_count = 30, rec_firstRequest = 1000, rec_lastRequest = 5000\<rparr>)],
      rateLimitFile = None\<rparr>"

section \<open>Evaluation rules and auxiliary lemmas\<close>

lemmas string_eval = js_def isSpace_def lowerChar_def toLowerCase_def trim_def splitWs_def
  contentWords_def fuzzy_def faqStopWords_def navStopWords_def

lemmas matcher_eval = keywordStep_def scoreKeywords_def faqStep_def navStep_def matchFAQ_def
  keywordMatch_def faqScoring_def navScoring_def firedRule_def contribution_def wordCount_def
  faqResult_def navResult_def Let_def

lemmas input_eval = faqNarx_def faqNarx2_def navNarx_def navAbout_def stateAtQuota_def

lemma contribution_by_rule:
  "contribution q qw k =
     (case firedRule q qw k of
        Exact \<Rightarrow> 100 | Substring \<Rightarrow> 50 | MultiWord \<Rightarrow> 30 * wordCount k
      | SingleWord \<Rightarrow> 10 | NoRule \<Rightarrow> 0)"
  by (simp add: contribution_def firedRule_def keywordStep_def wordCount_def Let_def)

lemma multiword_count: "firedRule q qw k = MultiWord \<Longrightarrow> 2 \<le> wordCount k"
  by (simp add: firedRule_def wordCount_def Let_def split: if_splits)

text \<open>
  The total score of a keyword list is the sum of the contributions of its keywords, so
  two items that differ in one keyword differ in total as that keyword's contributions do.
\<close>

lemma keywordStep_adds:
  "fst (keywordStep q qw st k) = fst st + contribution q qw k"
  by (simp add: keywordStep_def contribution_def Let_def)

lemma fold_adds:
  "fst (foldl (keywordStep q qw) st ks) = fst st + sum_list (map (contribution q qw) ks)"
  by (induction ks arbitrary: st) (simp_all add: keywordStep_adds)

lemma total_is_sum_of_contributions:
  "fst (scoreKeywords q qw ks) = sum_list (map (contribution q qw) ks)"
  by (simp add: scoreKeywords_def fold_adds)

lemma otherwise_equal_items:
  assumes "contribution q qw k2 < contribution q qw k1"
  shows "fst (scoreKeywords q qw (before @ k2 # after))
       < fst (scoreKeywords q qw (before @ k1 # after))"
  using assms by (simp add: total_is_sum_of_contributions)

lemma find_Some_mem: "find P xs = Some x \<Longrightarrow> x \<in> set xs \<and> P x"
  by (induction xs) (auto split: if_splits)

section \<open>Rate limiter: denial, window reset, status\<close>

text \<open>
  C1. When the record of an identifier is inside its window (the test
  \<open>now - firstRequest > WINDOW_MS\<close> fails) and its count has reached the quota of 30, the
  request is answered 429 with \<open>remaining\<close> 0 and \<open>resetAt\<close> equal to \<open>firstRequest\<close> plus
  the window of 12 hours, and the whole state (store and file, hence the record with its
  count and both time stamps) stays as it was.
\<close>

theorem rateLimiter_denies_at_quota:
  assumes "map_of (requestStore st) identifier = Some record"
    and "\<not> now - rec_firstRequest record > WINDOW_MS"
    and "rec_count record \<ge> MAX_REQUESTS"
  shows "MAX_REQUESTS = 30 \<and> WINDOW_MS = 12 * 3600000
       \<and> (\<exists>d. rateLimiter writeOk identifier now st = (Status429 d, st)
                \<and> den_remaining d = 0
                \<and> den_resetAt d = rec_firstRequest record + WINDOW_MS)
       \<and> map_of (requestStore (snd (rateLimiter writeOk identifier now st))) identifier
           = Some record"
  using assms by (simp add: rateLimiter_def Let_def MAX_REQUESTS_def WINDOW_MS_def)

theorem rateLimiter_denies_at_quota_witness:
  "map_of (requestStore stateAtQuota) ''10.0.0.1_abc''
     = Some \<lparr>rec_count = 30, rec_firstRequest = 1000, rec_lastRequest = 5000\<rparr>
   \<and> \<not> 6000 - 1000 > WINDOW_MS
   \<and> 30 \<ge> MAX_REQUESTS
   \<and> rateLimiter True ''10.0.0.1_abc'' 6000 stateAtQuota
       = (Status429 \<lparr>den_error = ''RATE_LIMIT_EXCEEDED'', den_hoursLeft = 12,
                      den_resetAt = 43201000, den_remaining = 0\<rparr>, stateAtQuota)"
  using rateLimiter_denies_at_quota
    [of stateAtQuota "''10.0.0.1_abc''"
        "\<lparr>rec_count = 30, rec_firstRequest = 1000, rec_lastRequest = 5000\<rparr>" 6000 True]
  by (simp add: stateAtQuota_def rateLimiter_def MAX_REQUESTS_def WINDOW_MS_def Let_def)

text \<open>
  C5. When more than the window of 12 hours has passed since the \<open>firstRequest\<close> of a
  record, the next request of that identifier is let through and the record is replaced
  by one with count 1 and both time stamps equal to the clock reading, whatever the count
  was; the new store is written to the file, and the records of the other identifiers
  are kept.
\<close>

theorem rateLimiter_resets_expired_window:
  assumes "map_of (requestStore st) identifier = Some record"
    and "now - rec_firstRequest record > WINDOW_MS"
  shows "WINDOW_MS = 12 * 3600000
       \<and> fst (rateLimiter writeOk identifier now st) = Next None
       \<and> map_of (requestStore (snd (rateLimiter writeOk identifier now st))) identifier
           = Some \<lparr>rec_count = 1, rec_firstRequest = now, rec_lastRequest = now\<rparr>
       \<and> (\<forall>other. other \<noteq> identifier \<longrightarrow>
             map_of (requestStore (snd (rateLimiter writeOk identifier now st))) other
               = map_of (requestStore st) other)
       \<and> (writeOk \<longrightarrow>
             rateLimitFile (snd (rateLimiter writeOk identifier now st))
               = Some (requestStore (snd (rateLimiter writeOk identifier now st))))"
  using assms
  by (simp add: rateLimiter_def saveRateLimits_def freshRecord_def WINDOW_MS_def
      AList.update_conv')

theorem rateLimiter_resets_expired_window_witness:
  "map_of (requestStore stateAtQuota) ''10.0.0.1_abc''
     = Some \<lparr>rec_count = 30, rec_firstRequest = 1000, rec_lastRequest = 5000\<rparr>
   \<and> 43201001 - 1000 > WINDOW_MS
   \<and> rateLimiter True ''10.0.0.1_abc'' 43201001 stateAtQuota
       = (Next None,
          \<lparr>requestStore = [(''10.0.0.1_abc'',
              \<lparr>rec_count = 1, rec_firstRequest = 43201001, rec_lastRequest = 43201001\<rparr>)],
           rateLimitFile = Some [(''10.0.0.1_abc'',
              \<lparr>rec_count = 1, rec_firstRequest = 43201001, rec_lastRequest = 43201001\<rparr>)]\<rparr>)"
  using rateLimiter_resets_expired_window
    [of stateAtQuota "''10.0.0.1_abc''"
        "\<lparr>rec_count = 30, rec_firstRequest = 1000, rec_lastRequest = 5000\<rparr>" 43201001 True]
  by (simp add: stateAtQuota_def rateLimiter_def saveRateLimits_def freshRecord_def
      WINDOW_MS_def)

text \<open>
  C8. \<open>getRateLimitStatus\<close> leaves store and file as they are. For an identifier without a
  record, or with a record whose window has expired, it reports the full quota of 30 as
  remaining and no reset time; otherwise it reports \<open>max(0, 30 - count)\<close> as remaining and
  \<open>firstRequest\<close> plus the window as reset time.
\<close>

theorem getRateLimitStatus_readonly:
  "snd (getRateLimitStatus identifier now st) = st
   \<and> MAX_REQUESTS = 30 \<and> WINDOW_MS = 12 * 3600000
   \<and> ((map_of (requestStore st) identifier = None
        \<or> (\<exists>record. map_of (requestStore st) identifier = Some record
              \<and> now - rec_firstRequest record > WINDOW_MS)) \<longrightarrow>
         stat_remaining (fst (getRateLimitStatus identifier now st)) = MAX_REQUESTS
         \<and> stat_resetAt (fst (getRateLimitStatus identifier now st)) = None)
   \<and> (\<forall>record. map_of (requestStore st) identifier = Some record
          \<and> \<not> now - rec_firstRequest record > WINDOW_MS \<longrightarrow>
         stat_remaining (fst (getRateLimitStatus identifier now st))
           = max 0 (MAX_REQUESTS - rec_count record)
         \<and> stat_resetAt (fst (getRateLimitStatus identifier now st))
           = Some (rec_firstRequest record + WINDOW_MS))"
  by (auto simp add: getRateLimitStatus_def MAX_REQUESTS_def WINDOW_MS_def split: option.splits)

theorem getRateLimitStatus_readonly_witness:
  "map_of (requestStore stateAtQuota) ''unknown'' = None
   \<and> snd (getRateLimitStatus ''unknown'' 6000 stateAtQuota) = stateAtQuota
   \<and> stat_remaining (fst (getRateLimitStatus ''unknown'' 6000 stateAtQuota)) = 30
   \<and> stat_resetAt (fst (getRateLimitStatus ''unknown'' 6000 stateAtQuota)) = None
   \<and> map_of (requestStore stateAtQuota) ''10.0.0.1_abc''
       = Some \<lparr>rec_count = 30, rec_firstRequest = 1000, rec_lastRequest = 5000\<rparr>
   \<and> \<not> 6000 - 1000 > WINDOW_MS
   \<and> stat_remaining (fst (getRateLimitStatus ''10.0.0.1_abc'' 6000 stateAtQuota)) = 0
   \<and> stat_resetAt (fst (getRateLimitStatus ''10.0.0.1_abc'' 6000 stateAtQuota))
       = Some 43201000"
proof -
  let ?r = "\<lparr>rec_count = 30, rec_firstRequest = 1000, rec_lastRequest = 5000\<rparr>"
  have absent: "map_of (requestStore stateAtQuota) ''unknown'' = None"
    by (simp add: stateAtQuota_def)
  have present: "map_of (requestStore stateAtQuota) ''10.0.0.1_abc'' = Some ?r"
    by (simp add: stateAtQuota_def)
  have inside: "\<not> 6000 - rec_firstRequest ?r > WINDOW_MS"
    by (simp add: WINDOW_MS_def)
  have full: "snd (getRateLimitStatus ''unknown'' 6000 stateAtQuota) = stateAtQuota
      \<and> stat_remaining (fst (getRateLimitStatus ''unknown'' 6000 stateAtQuota)) = 30
      \<and> stat_resetAt (fst (getRateLimitStatus ''unknown'' 6000 stateAtQuota)) = None"
    using getRateLimitStatus_readonly [of "''unknown''" 6000 stateAtQuota] absent
    by presburger
  have used: "stat_remaining (fst (getRateLimitStatus ''10.0.0.1_abc'' 6000 stateAtQuota))
        = max 0 (MAX_REQUESTS - rec_count ?r)
      \<and> stat_resetAt (fst (getRateLimitStatus ''10.0.0.1_abc'' 6000 stateAtQuota))
        = Some (rec_firstRequest ?r + WINDOW_MS)"
    using getRateLimitStatus_readonly [of "''10.0.0.1_abc''" 6000 stateAtQuota] present inside
    by blast
  have vals: "max 0 (MAX_REQUESTS - rec_count ?r) = 0 \<and> rec_firstRequest ?r + WINDOW_MS = 43201000"
    by (simp add: MAX_REQUESTS_def WINDOW_MS_def)
  from absent present inside full used vals show ?thesis by simp
qed

section \<open>Lexical matcher: scoring rules\<close>

text \<open>
  C10. The stop-word list of \<open>matchFAQ\<close> is that of \<open>keywordMatch\<close> followed by \<open>nima\<close> and
  \<open>qanday\<close>. For the queries \<open>qanday\<close>, \<open>nima\<close> and \<open>ga qanday\<close> the FAQ matcher has no
  content word and the navigation matcher has one, so for one and the same keyword list
  the fuzzy rules give score 0 in the first and 60 or 10 in the second: the two scoring
  functions differ.
\<close>

theorem stop_word_lists_differ:
  "faqStopWords = navStopWords @ [js ''nima'', js ''qanday'']
   \<and> contentWords faqStopWords (js ''qanday'') = []
   \<and> contentWords navStopWords (js ''qanday'') = [js ''qanday'']
   \<and> fst (faqScoring (js ''qanday'') [js ''qan day'']) = 0
   \<and> fst (navScoring (js ''qanday'') [js ''qan day'']) = 60
   \<and> fst (faqScoring (js ''nima'') [js ''ni ma'']) = 0
   \<and> fst (navScoring (js ''nima'') [js ''ni ma'']) = 60
   \<and> fst (faqScoring (js ''ga qanday'') [js ''qandaydir'']) = 0
   \<and> fst (navScoring (js ''ga qanday'') [js ''qandaydir'']) = 10
   \<and> faqScoring \<noteq> navScoring"
proof -
  have lists: "faqStopWords = navStopWords @ [js ''nima'', js ''qanday'']"
    by (simp add: faqStopWords_def navStopWords_def)
  have w1: "contentWords faqStopWords (js ''qanday'') = []"
    by (simp add: string_eval)
  have w2: "contentWords navStopWords (js ''qanday'') = [js ''qanday'']"
    by (simp add: string_eval)
  have a1: "faqScoring (js ''qanday'') [js ''qan day''] = (0, [])"
    by (simp add: string_eval matcher_eval)
  have a2: "navScoring (js ''qanday'') [js ''qan day''] = (60, [js ''qan day''])"
    by (simp add: string_eval matcher_eval)
  have b1: "faqScoring (js ''nima'') [js ''ni ma''] = (0, [])"
    by (simp add: string_eval matcher_eval)
  have b2: "navScoring (js ''nima'') [js ''ni ma''] = (60, [js ''ni ma''])"
    by (simp add: string_eval matcher_eval)
  have c1: "faqScoring (js ''ga qanday'') [js ''qandaydir''] = (0, [])"
    by (simp add: string_eval matcher_eval)
  have c2: "navScoring (js ''ga qanday'') [js ''qandaydir''] = (10, [js ''qandaydir''])"
    by (simp add: string_eval matcher_eval)
  have "faqScoring \<noteq> navScoring"
  proof
    assume "faqScoring = navScoring"
    then have "faqScoring (js ''qanday'') [js ''qan day''] = navScoring (js ''qanday'') [js ''qan day'']"
      by simp
    with a1 a2 show False by simp
  qed
  with lists w1 w2 a1 a2 b1 b2 c1 c2 show ?thesis by simp
qed

text \<open>
  C4, as stated, fails: for the query \<open>narx qancha\<close> the keyword \<open>narx\<close> is contained in
  the query, so the substring rule fires before the fuzzy rules are reached and the
  keyword scores 50, not 10.
\<close>

theorem narx_scores_ten_counterexample:
  "firedRule (js ''narx qancha'') (contentWords faqStopWords (js ''narx qancha'')) (js ''narx'') = Substring
   \<and> fst (faqScoring (js ''narx qancha'') [js ''narx'']) = 50
   \<and> fst (faqScoring (js ''narx qancha'') [js ''narx'']) \<noteq> 10"
  by (simp add: string_eval matcher_eval)

text \<open>
  C4, amended. For the query \<open>narx qancha\<close> the keyword \<open>narx\<close> scores 50 (substring
  containment) and the keyword \<open>narx qancha\<close> scores 100 (exact match); of two FAQ
  entries, one with the keyword list \<open>[narx]\<close> and one with \<open>[narx qancha]\<close>, \<open>matchFAQ\<close>
  selects the second, in either order of the entries.
\<close>

theorem narx_scenario:
  "fst (faqScoring (js ''narx qancha'') [js ''narx'']) = 50
   \<and> fst (faqScoring (js ''narx qancha'') [js ''narx qancha'']) = 100
   \<and> matchFAQ [a\<lparr>faq_keywords := [js ''narx'']\<rparr>, b\<lparr>faq_keywords := [js ''narx qancha'']\<rparr>]
        (js ''narx qancha'')
       = Some \<lparr>fm_faq = b\<lparr>faq_keywords := [js ''narx qancha'']\<rparr>, fm_matched = True,
               fm_score = 100, fm_matchedKeywords = [js ''narx qancha'']\<rparr>
   \<and> matchFAQ [b\<lparr>faq_keywords := [js ''narx qancha'']\<rparr>, a\<lparr>faq_keywords := [js ''narx'']\<rparr>]
        (js ''narx qancha'')
       = Some \<lparr>fm_faq = b\<lparr>faq_keywords := [js ''narx qancha'']\<rparr>, fm_matched = True,
               fm_score = 100, fm_matchedKeywords = [js ''narx qancha'']\<rparr>"
  by (simp add: string_eval matcher_eval)

text \<open>
  C3, as stated, fails: a multi-word fuzzy match adds 30 for each word of the keyword,
  which is 60 or more and so above the 50 of substring containment. For the query
  \<open>qancha narx\<close> the keyword \<open>narx\<close> is a substring match worth 50 and the keyword
  \<open>narx qancha\<close> a multi-word fuzzy match worth 60.
\<close>

theorem substring_above_multiword_counterexample:
  "firedRule (js ''qancha narx'') (contentWords faqStopWords (js ''qancha narx'')) (js ''narx'') = Substring
   \<and> firedRule (js ''qancha narx'') (contentWords faqStopWords (js ''qancha narx'')) (js ''narx qancha'')
       = MultiWord
   \<and> contribution (js ''qancha narx'') (contentWords faqStopWords (js ''qancha narx'')) (js ''narx'') = 50
   \<and> contribution (js ''qancha narx'') (contentWords faqStopWords (js ''qancha narx'')) (js ''narx qancha'') = 60
   \<and> \<not> contribution (js ''qancha narx'') (contentWords faqStopWords (js ''qancha narx'')) (js ''narx qancha'')
        < contribution (js ''qancha narx'') (contentWords faqStopWords (js ''qancha narx'')) (js ''narx'')"
  by (simp add: string_eval matcher_eval)

text \<open>
  An exact match does not bound the multi-word rule either: a keyword of four words that
  fuzzy-matches adds 120.
\<close>

lemma four_word_keyword_above_exact:
  "firedRule (js ''aaa bbb ccc ddd'') (contentWords faqStopWords (js ''aaa bbb ccc ddd'')) (js ''ddd ccc bbb aaa'')
     = MultiWord
   \<and> contribution (js ''aaa bbb ccc ddd'') (contentWords faqStopWords (js ''aaa bbb ccc ddd''))
        (js ''ddd ccc bbb aaa'') = 120
   \<and> contribution (js ''aaa bbb ccc ddd'') (contentWords faqStopWords (js ''aaa bbb ccc ddd''))
        (js ''aaa bbb ccc ddd'') = 100"
  by (simp add: string_eval matcher_eval)

text \<open>
  C3, amended. For one query and one list of content words, a keyword matched exactly
  (100) contributes strictly more than one matched by substring containment (50), which
  contributes strictly more than one matched by the single-word fuzzy rule (10); a
  keyword matched by the multi-word fuzzy rule contributes 30 times its word count, which
  is strictly more than a substring match and than a single-word fuzzy match.
\<close>

theorem scoring_order:
  assumes "firedRule q qw k1 = r1" and "firedRule q qw k2 = r2"
    and "(r1, r2) \<in> {(Exact, Substring), (Exact, SingleWord), (Substring, SingleWord),
                      (MultiWord, Substring), (MultiWord, SingleWord)}"
  shows "contribution q qw k2 < contribution q qw k1
       \<and> (r1 = MultiWord \<longrightarrow> contribution q qw k1 = 30 * wordCount k1)"
  using assms multiword_count [of q qw k1]
  by (auto simp add: contribution_by_rule)

theorem scoring_order_witness:
  "firedRule (js ''narx qancha'') (contentWords faqStopWords (js ''narx qancha'')) (js ''narx qancha'') = Exact
   \<and> firedRule (js ''narx qancha'') (contentWords faqStopWords (js ''narx qancha'')) (js ''narx'') = Substring
   \<and> firedRule (js ''narx qancha'') (contentWords faqStopWords (js ''narx qancha'')) (js ''qanchalik'')
       = SingleWord
   \<and> firedRule (js ''qancha narx'') (contentWords faqStopWords (js ''qancha narx'')) (js ''narx qancha'')
       = MultiWord
   \<and> firedRule (js ''qancha narx'') (contentWords faqStopWords (js ''qancha narx'')) (js ''qanchalik'')
       = SingleWord
   \<and> contribution (js ''narx qancha'') (contentWords faqStopWords (js ''narx qancha'')) (js ''narx'')
       < contribution (js ''narx qancha'') (contentWords faqStopWords (js ''narx qancha'')) (js ''narx qancha'')
   \<and> contribution (js ''narx qancha'') (contentWords faqStopWords (js ''narx qancha'')) (js ''qanchalik'')
       < contribution (js ''narx qancha'') (contentWords faqStopWords (js ''narx qancha'')) (js ''narx'')
   \<and> contribution (js ''qancha narx'') (contentWords faqStopWords (js ''qancha narx'')) (js ''qanchalik'')
       < contribution (js ''qancha narx'') (contentWords faqStopWords (js ''qancha narx'')) (js ''narx qancha'')"
proof -
  let ?w1 = "contentWords faqStopWords (js ''narx qancha'')"
  let ?w2 = "contentWords faqStopWords (js ''qancha narx'')"
  have e: "firedRule (js ''narx qancha'') ?w1 (js ''narx qancha'') = Exact"
    by (simp add: string_eval matcher_eval)
  have s: "firedRule (js ''narx qancha'') ?w1 (js ''narx'') = Substring"
    by (simp add: string_eval matcher_eval)
  have f: "firedRule (js ''narx qancha'') ?w1 (js ''qanchalik'') = SingleWord"
    by (simp add: string_eval matcher_eval)
  have m: "firedRule (js ''qancha narx'') ?w2 (js ''narx qancha'') = MultiWord"
    by (simp add: string_eval matcher_eval)
  have g: "firedRule (js ''qancha narx'') ?w2 (js ''qanchalik'') = SingleWord"
    by (simp add: string_eval matcher_eval)
  have es: "contribution (js ''narx qancha'') ?w1 (js ''narx'') < contribution (js ''narx qancha'') ?w1 (js ''narx qancha'')"
    using scoring_order [OF e s] by simp
  have sf: "contribution (js ''narx qancha'') ?w1 (js ''qanchalik'') < contribution (js ''narx qancha'') ?w1 (js ''narx'')"
    using scoring_order [OF s f] by simp
  have mg: "contribution (js ''qancha narx'') ?w2 (js ''qanchalik'') < contribution (js ''qancha narx'') ?w2 (js ''narx qancha'')"
    using scoring_order [OF m g] by simp
  from e s f m g es sf mg show ?thesis by simp
qed

section \<open>Lexical matcher: selection of the best item\<close>

lemma firstMax_snoc_keep:
  assumes "firstMax sc xs i" and "sc x \<le> sc (xs ! i)"
  shows "firstMax sc (xs @ [x]) i"
  using assms by (auto simp add: firstMax_def nth_append less_Suc_eq)

lemma firstMax_snoc_new:
  assumes "\<forall>y\<in>set xs. sc y < sc x"
  shows "firstMax sc (xs @ [x]) (length xs)"
  using assms by (auto simp add: firstMax_def nth_append less_Suc_eq intro: less_imp_le)

text \<open>
  Both loops over the items have the same shape: the current item replaces the best one
  when its score is above \<open>highestScore\<close> and not below a threshold \<open>t\<close> (10 in
  \<open>matchFAQ\<close>, 1 in \<open>keywordMatch\<close>). After the loop the state is \<open>null\<close> with all scores
  below \<open>t\<close>, or the first item of maximal score.
\<close>

lemma best_fold:
  fixes step :: "'r option \<times> nat \<Rightarrow> 'a \<Rightarrow> 'r option \<times> nat"
  assumes step: "\<And>b hs x. step (b, hs) x =
                   (if sc x > hs \<and> sc x \<ge> t then (Some (mk x), sc x) else (b, hs))"
    and t: "0 < t"
  shows "case foldl step (None, 0) xs of
           (None, hs) \<Rightarrow> hs = 0 \<and> (\<forall>x\<in>set xs. sc x < t)
         | (Some r, hs) \<Rightarrow> \<exists>i. firstMax sc xs i \<and> r = mk (xs ! i) \<and> hs = sc (xs ! i) \<and> t \<le> hs"
proof (induction xs rule: rev_induct)
  case Nil
  then show ?case by simp
next
  case (snoc x xs)
  obtain b hs where acc: "foldl step (None, 0) xs = (b, hs)"
    by (cases "foldl step (None, 0) xs")
  show ?case
  proof (cases b)
    case None
    with snoc acc have hs: "hs = 0" and low: "\<forall>y\<in>set xs. sc y < t" by auto
    show ?thesis
    proof (cases "sc x \<ge> t")
      case True
      with low have "\<forall>y\<in>set xs. sc y < sc x" by auto
      then have "firstMax sc (xs @ [x]) (length xs)" by (rule firstMax_snoc_new)
      with True t hs None acc show ?thesis by (auto simp add: step)
    next
      case False
      with low hs None acc show ?thesis by (auto simp add: step)
    qed
  next
    case (Some r)
    with snoc acc obtain i where
      i: "firstMax sc xs i" "r = mk (xs ! i)" "hs = sc (xs ! i)" "t \<le> hs"
      by auto
    show ?thesis
    proof (cases "sc x > hs")
      case True
      have "\<forall>y\<in>set xs. sc y \<le> hs"
        using i(1,3) by (auto simp add: firstMax_def in_set_conv_nth)
      with True have "\<forall>y\<in>set xs. sc y < sc x" by auto
      then have "firstMax sc (xs @ [x]) (length xs)" by (rule firstMax_snoc_new)
      with True i(4) Some acc show ?thesis by (auto simp add: step)
    next
      case False
      then have "sc x \<le> sc (xs ! i)" using i(3) by simp
      with i(1) have fm: "firstMax sc (xs @ [x]) i" by (rule firstMax_snoc_keep)
      have "i < length xs" using i(1) by (simp add: firstMax_def)
      with fm False i Some acc show ?thesis
        by (auto simp add: step nth_append intro!: exI [of _ i])
    qed
  qed
qed

lemma matchFAQ_fold:
  "case foldl (faqStep (trim (toLowerCase query))
                 (contentWords faqStopWords (trim (toLowerCase query)))) (None, 0) faqs of
     (None, hs) \<Rightarrow> hs = 0 \<and> (\<forall>f\<in>set faqs. fst (faqScoring query (faq_keywords f)) < 10)
   | (Some r, hs) \<Rightarrow>
       \<exists>i. firstMax (\<lambda>f. fst (faqScoring query (faq_keywords f))) faqs i
          \<and> r = faqResult query (faqs ! i)
          \<and> hs = fst (faqScoring query (faq_keywords (faqs ! i))) \<and> 10 \<le> hs"
  by (rule best_fold) (simp_all add: faqStep_def faqScoring_def faqResult_def Let_def)

lemma keywordMatch_fold:
  "case foldl (navStep (trim (toLowerCase query))
                 (contentWords navStopWords (trim (toLowerCase query)))) (None, 0) siteMap of
     (None, hs) \<Rightarrow> hs = 0 \<and> (\<forall>f\<in>set siteMap. fst (navScoring query (nav_keywords f)) < 1)
   | (Some r, hs) \<Rightarrow>
       \<exists>i. firstMax (\<lambda>f. fst (navScoring query (nav_keywords f))) siteMap i
          \<and> r = navResult query (siteMap ! i)
          \<and> hs = fst (navScoring query (nav_keywords (siteMap ! i))) \<and> 1 \<le> hs"
  by (rule best_fold) (auto simp add: navStep_def navScoring_def navResult_def Let_def)

lemma matchFAQ_char:
  "case matchFAQ faqs query of
     None \<Rightarrow> \<forall>f\<in>set faqs. fst (faqScoring query (faq_keywords f)) < 10
   | Some r \<Rightarrow> \<exists>i. firstMax (\<lambda>f. fst (faqScoring query (faq_keywords f))) faqs i
                  \<and> r = faqResult query (faqs ! i) \<and> 10 \<le> fm_score r"
  using matchFAQ_fold [where query = query and faqs = faqs]
  by (auto simp add: matchFAQ_def Let_def faqResult_def split: prod.splits option.splits)

lemma keywordMatch_char:
  "case keywordMatch siteMap query of
     None \<Rightarrow> \<forall>f\<in>set siteMap. fst (navScoring query (nav_keywords f)) < 10
   | Some r \<Rightarrow> \<exists>i. firstMax (\<lambda>f. fst (navScoring query (nav_keywords f))) siteMap i
                  \<and> r = navResult query (siteMap ! i) \<and> 10 \<le> nm_score r"
proof -
  let ?sc = "\<lambda>f. fst (navScoring query (nav_keywords f))"
  let ?loop = "foldl (navStep (trim (toLowerCase query))
                 (contentWords navStopWords (trim (toLowerCase query)))) (None, 0) siteMap"
  obtain b hs where acc: "?loop = (b, hs)"
    by (cases ?loop)
  show ?thesis
  proof (cases b)
    case None
    with acc keywordMatch_fold [where query = query and siteMap = siteMap]
    have "\<forall>f\<in>set siteMap. ?sc f < 1" by simp
    then have "\<forall>f\<in>set siteMap. ?sc f < 10" by auto
    with None acc show ?thesis by (simp add: keywordMatch_def Let_def)
  next
    case (Some r)
    with acc keywordMatch_fold [where query = query and siteMap = siteMap]
    obtain i where
      i: "firstMax ?sc siteMap i" "r = navResult query (siteMap ! i)" "hs = ?sc (siteMap ! i)"
      by auto
    show ?thesis
    proof (cases "hs \<ge> 10")
      case True
      with Some acc i show ?thesis
        by (auto simp add: keywordMatch_def Let_def navResult_def)
    next
      case False
      have "\<forall>f\<in>set siteMap. ?sc f \<le> hs"
        using i(1,3) by (auto simp add: firstMax_def in_set_conv_nth)
      with False have "\<forall>f\<in>set siteMap. ?sc f < 10" by auto
      with False Some acc show ?thesis by (simp add: keywordMatch_def Let_def)
    qed
  qed
qed

text \<open>
  C7. Each matcher returns the item of highest total score, and of several items with
  that score the one met first: the selected position holds a score that no position
  exceeds and that every earlier position stays strictly below. Nothing is returned when
  the item set is empty or when no item reaches the threshold of 10; whatever is returned
  has a score of at least 10.
\<close>

theorem best_match_selection:
  "(case matchFAQ faqs query of
      None \<Rightarrow> \<forall>f\<in>set faqs. fst (faqScoring query (faq_keywords f)) < 10
    | Some r \<Rightarrow> \<exists>i. firstMax (\<lambda>f. fst (faqScoring query (faq_keywords f))) faqs i
                   \<and> r = faqResult query (faqs ! i) \<and> 10 \<le> fm_score r)
   \<and> (case keywordMatch siteMap query of
        None \<Rightarrow> \<forall>f\<in>set siteMap. fst (navScoring query (nav_keywords f)) < 10
      | Some r \<Rightarrow> \<exists>i. firstMax (\<lambda>f. fst (navScoring query (nav_keywords f))) siteMap i
                     \<and> r = navResult query (siteMap ! i) \<and> 10 \<le> nm_score r)
   \<and> matchFAQ [] query = None \<and> keywordMatch [] query = None"
  using matchFAQ_char [of faqs query] keywordMatch_char [of siteMap query]
  by (simp add: matchFAQ_def keywordMatch_def)

theorem best_match_selection_witness:
  "matchFAQ [faqNarx, faqNarx2] (js ''narx'') = Some (faqResult (js ''narx'') faqNarx)
   \<and> fst (faqScoring (js ''narx'') (faq_keywords faqNarx)) = 100
   \<and> fst (faqScoring (js ''narx'') (faq_keywords faqNarx2)) = 100
   \<and> keywordMatch [navAbout, navNarx] (js ''narx'') = Some (navResult (js ''narx'') navNarx)
   \<and> (\<exists>i. firstMax (\<lambda>f. fst (faqScoring (js ''narx'') (faq_keywords f))) [faqNarx, faqNarx2] i
          \<and> faqResult (js ''narx'') faqNarx = faqResult (js ''narx'') ([faqNarx, faqNarx2] ! i)
          \<and> 10 \<le> fm_score (faqResult (js ''narx'') faqNarx))
   \<and> (\<exists>i. firstMax (\<lambda>f. fst (navScoring (js ''narx'') (nav_keywords f))) [navAbout, navNarx] i
          \<and> navResult (js ''narx'') navNarx = navResult (js ''narx'') ([navAbout, navNarx] ! i)
          \<and> 10 \<le> nm_score (navResult (js ''narx'') navNarx))"
proof -
  have f: "matchFAQ [faqNarx, faqNarx2] (js ''narx'') = Some (faqResult (js ''narx'') faqNarx)"
    by (simp add: string_eval matcher_eval input_eval)
  have s1: "fst (faqScoring (js ''narx'') (faq_keywords faqNarx)) = 100"
    by (simp add: string_eval matcher_eval input_eval)
  have s2: "fst (faqScoring (js ''narx'') (faq_keywords faqNarx2)) = 100"
    by (simp add: string_eval matcher_eval input_eval)
  have k: "keywordMatch [navAbout, navNarx] (js ''narx'') = Some (navResult (js ''narx'') navNarx)"
    by (simp add: string_eval matcher_eval input_eval)
  note sel = best_match_selection [of "[faqNarx, faqNarx2]" "js ''narx''" "[navAbout, navNarx]"]
  have ff: "\<exists>i. firstMax (\<lambda>f. fst (faqScoring (js ''narx'') (faq_keywords f))) [faqNarx, faqNarx2] i
          \<and> faqResult (js ''narx'') faqNarx = faqResult (js ''narx'') ([faqNarx, faqNarx2] ! i)
          \<and> 10 \<le> fm_score (faqResult (js ''narx'') faqNarx)"
    using sel by (simp only: f option.case)
  have kk: "\<exists>i. firstMax (\<lambda>f. fst (navScoring (js ''narx'') (nav_keywords f))) [navAbout, navNarx] i
          \<and> navResult (js ''narx'') navNarx = navResult (js ''narx'') ([navAbout, navNarx] ! i)
          \<and> 10 \<le> nm_score (navResult (js ''narx'') navNarx)"
    using sel by (simp only: k option.case)
  from f s1 s2 k ff kk show ?thesis by (intro conjI)
qed

section \<open>Orchestrator: the cascade and the AI fallback\<close>

text \<open>
  C2. The decision follows a fixed order. When \<open>matchFAQ\<close> finds an entry, the decision is
  FAQ and \<open>matchFAQ\<close> is the only call made. When it finds none and \<open>keywordMatch\<close> finds an
  item, the decision is NAVIGATION and the calls are these two. \<open>keywordMatch\<close> is called
  exactly when \<open>matchFAQ\<close> finds nothing, \<open>aiMatch\<close> exactly when both find nothing; as soon
  as one of the two finds something, the result does not depend on the classifier.
\<close>

theorem detectNavigation_cascade:
  "(\<forall>f. matchFAQ faqs query = Some f \<longrightarrow>
        detectNavigation ai faqs siteMap query = (FAQ f, [CallMatchFAQ]))
   \<and> (\<forall>k. matchFAQ faqs query = None \<and> keywordMatch siteMap query = Some k \<longrightarrow>
        detectNavigation ai faqs siteMap query =
          (NAVIGATION_keyword k, [CallMatchFAQ, CallKeywordMatch]))
   \<and> (CallKeywordMatch \<in> set (snd (detectNavigation ai faqs siteMap query)) \<longleftrightarrow>
        matchFAQ faqs query = None)
   \<and> (CallAiMatch \<in> set (snd (detectNavigation ai faqs siteMap query)) \<longleftrightarrow>
        matchFAQ faqs query = None \<and> keywordMatch siteMap query = None)
   \<and> (matchFAQ faqs query \<noteq> None \<or> keywordMatch siteMap query \<noteq> None \<longrightarrow>
        detectNavigation ai faqs siteMap query = detectNavigation ai' faqs siteMap query)
   \<and> (matchFAQ faqs query \<noteq> None \<longrightarrow>
        decisionType (fst (detectNavigation ai faqs siteMap query)) = ''FAQ'')
   \<and> (matchFAQ faqs query = None \<and> keywordMatch siteMap query \<noteq> None \<longrightarrow>
        decisionType (fst (detectNavigation ai faqs siteMap query)) = ''NAVIGATION'')"
  by (auto simp add: detectNavigation_def Let_def split: option.splits)

theorem detectNavigation_cascade_witness:
  "matchFAQ [faqNarx] (js ''narx'') = Some (faqResult (js ''narx'') faqNarx)
   \<and> keywordMatch [navNarx] (js ''narx'') = Some (navResult (js ''narx'') navNarx)
   \<and> detectNavigation (\<lambda>s q. Content (js ''/narxlar'')) [faqNarx] [navNarx] (js ''narx'')
       = (FAQ (faqResult (js ''narx'') faqNarx), [CallMatchFAQ])
   \<and> matchFAQ [] (js ''narx'') = None
   \<and> detectNavigation (\<lambda>s q. Content (js ''/narxlar'')) [] [navNarx] (js ''narx'')
       = (NAVIGATION_keyword (navResult (js ''narx'') navNarx), [CallMatchFAQ, CallKeywordMatch])"
proof -
  have f: "matchFAQ [faqNarx] (js ''narx'') = Some (faqResult (js ''narx'') faqNarx)"
    by (simp add: string_eval matcher_eval input_eval)
  have k: "keywordMatch [navNarx] (js ''narx'') = Some (navResult (js ''narx'') navNarx)"
    by (simp add: string_eval matcher_eval input_eval)
  have n: "matchFAQ [] (js ''narx'') = None"
    by (simp add: matchFAQ_def)
  have d1: "detectNavigation (\<lambda>s q. Content (js ''/narxlar'')) [faqNarx] [navNarx] (js ''narx'')
      = (FAQ (faqResult (js ''narx'') faqNarx), [CallMatchFAQ])"
    using f
    by (rule detectNavigation_cascade [THEN conjunct1, rule_format])
  have d2: "detectNavigation (\<lambda>s q. Content (js ''/narxlar'')) [] [navNarx] (js ''narx'')
      = (NAVIGATION_keyword (navResult (js ''narx'') navNarx), [CallMatchFAQ, CallKeywordMatch])"
    using n k
    by (intro detectNavigation_cascade [THEN conjunct2, THEN conjunct1, rule_format] conjI)
  from f k n d1 d2 show ?thesis by (intro conjI)
qed

lemma find_url_None:
  "find (\<lambda>item. nav_url item = u) siteMap = None \<longleftrightarrow> u \<notin> nav_url ` set siteMap"
  by (auto simp add: find_None_iff)

lemma aiMatch_cases:
  "aiMatch ai siteMap query =
     (case ai (sections siteMap) query of
        Threw \<Rightarrow> aiNotFound
      | Content c \<Rightarrow>
          if trim c \<noteq> js ''NOT_FOUND'' \<and> trim c \<in> nav_url ` set siteMap
          then \<lparr>ai_url = trim c,
                ai_intent = map_option nav_intent (find (\<lambda>item. nav_url item = trim c) siteMap),
                ai_matched = True\<rparr>
          else aiNotFound)"
proof (cases "ai (sections siteMap) query")
  case Threw
  then show ?thesis by (simp add: aiMatch_def)
next
  case (Content c)
  show ?thesis
  proof (cases "find (\<lambda>item. nav_url item = trim c) siteMap")
    case None
    then have "trim c \<notin> nav_url ` set siteMap" by (simp add: find_url_None)
    with None Content show ?thesis by (simp add: aiMatch_def Let_def)
  next
    case (Some foundItem)
    then have "foundItem \<in> set siteMap \<and> nav_url foundItem = trim c"
      by (rule find_Some_mem)
    then have "trim c \<in> nav_url ` set siteMap" by force
    with Some Content show ?thesis by (simp add: aiMatch_def Let_def)
  qed
qed

text \<open>
  C6, as stated, fails: the text of the classifier is trimmed before it is compared, so a
  reply that is not itself the url of any item, here \<open>/about\<close> followed by a space, still
  yields NAVIGATION.
\<close>

theorem untrimmed_reply_counterexample:
  "matchFAQ [] (js ''salom'') = None
   \<and> keywordMatch [navAbout] (js ''salom'') = None
   \<and> (js ''/about '') \<notin> nav_url ` set [navAbout]
   \<and> fst (detectNavigation (\<lambda>s q. Content (js ''/about '')) [] [navAbout] (js ''salom''))
       = NAVIGATION_ai \<lparr>ai_url = js ''/about'', ai_intent = Some (js ''Biz haqimizda''),
                         ai_matched = True\<rparr>"
  by (simp add: detectNavigation_def aiMatch_def aiNotFound_def string_eval matcher_eval
      input_eval)

text \<open>
  C6, amended. When both lexical stages miss, the decision is NAVIGATION exactly when the
  reply of the classifier, with surrounding white space trimmed, is not the sentinel
  \<open>NOT_FOUND\<close> and is the url of an item of the site map; the decision then carries that
  url and the intent of the first item with it. A trimmed reply outside the set, the
  sentinel and an exception raised by the call all give NOT_FOUND. A decision NAVIGATION
  that comes from the classifier always carries the url of an item.
\<close>

theorem ai_reply_validated:
  "(matchFAQ faqs query = None \<and> keywordMatch siteMap query = None
      \<and> ai (sections siteMap) query = Threw \<longrightarrow>
        fst (detectNavigation ai faqs siteMap query) = NOT_FOUND)
   \<and> (\<forall>c. matchFAQ faqs query = None \<and> keywordMatch siteMap query = None
        \<and> ai (sections siteMap) query = Content c \<longrightarrow>
          fst (detectNavigation ai faqs siteMap query) =
            (if trim c \<noteq> js ''NOT_FOUND'' \<and> trim c \<in> nav_url ` set siteMap
             then NAVIGATION_ai
                    \<lparr>ai_url = trim c,
                     ai_intent = map_option nav_intent
                                   (find (\<lambda>item. nav_url item = trim c) siteMap),
                     ai_matched = True\<rparr>
             else NOT_FOUND))
   \<and> (\<forall>r. fst (detectNavigation ai faqs siteMap query) = NAVIGATION_ai r \<longrightarrow>
          (\<exists>c. ai (sections siteMap) query = Content c \<and> ai_url r = trim c
              \<and> trim c \<in> nav_url ` set siteMap \<and> trim c \<noteq> js ''NOT_FOUND''))"
proof (intro conjI allI impI)
  assume "matchFAQ faqs query = None \<and> keywordMatch siteMap query = None
      \<and> ai (sections siteMap) query = Threw"
  then show "fst (detectNavigation ai faqs siteMap query) = NOT_FOUND"
    by (simp add: detectNavigation_def aiMatch_cases aiNotFound_def)
next
  fix c
  assume "matchFAQ faqs query = None \<and> keywordMatch siteMap query = None
      \<and> ai (sections siteMap) query = Content c"
  then show "fst (detectNavigation ai faqs siteMap query) =
      (if trim c \<noteq> js ''NOT_FOUND'' \<and> trim c \<in> nav_url ` set siteMap
       then NAVIGATION_ai
              \<lparr>ai_url = trim c,
               ai_intent = map_option nav_intent
                             (find (\<lambda>item. nav_url item = trim c) siteMap),
               ai_matched = True\<rparr>
       else NOT_FOUND)"
    by (simp add: detectNavigation_def aiMatch_cases aiNotFound_def)
next
  fix r
  assume nav: "fst (detectNavigation ai faqs siteMap query) = NAVIGATION_ai r"
  then have r: "r = aiMatch ai siteMap query" and m: "ai_matched (aiMatch ai siteMap query)"
    by (auto simp add: detectNavigation_def Let_def split: option.splits if_splits)
  show "\<exists>c. ai (sections siteMap) query = Content c \<and> ai_url r = trim c
          \<and> trim c \<in> nav_url ` set siteMap \<and> trim c \<noteq> js ''NOT_FOUND''"
  proof (cases "ai (sections siteMap) query")
    case Threw
    with r m show ?thesis by (simp add: aiMatch_cases aiNotFound_def)
  next
    case (Content c)
    with r m show ?thesis
      by (auto simp add: aiMatch_cases aiNotFound_def split: if_splits)
  qed
qed

theorem ai_reply_validated_witness:
  "matchFAQ [] (js ''salom'') = None
   \<and> keywordMatch [navAbout] (js ''salom'') = None
   \<and> fst (detectNavigation (\<lambda>s q. Threw) [] [navAbout] (js ''salom'')) = NOT_FOUND
   \<and> fst (detectNavigation (\<lambda>s q. Content (js ''/nowhere'')) [] [navAbout] (js ''salom''))
       = NOT_FOUND
   \<and> fst (detectNavigation (\<lambda>s q. Content (js ''NOT_FOUND'')) [] [navAbout] (js ''salom''))
       = NOT_FOUND
   \<and> fst (detectNavigation (\<lambda>s q. Content (js ''/about'')) [] [navAbout] (js ''salom''))
       = NAVIGATION_ai \<lparr>ai_url = js ''/about'', ai_intent = Some (js ''Biz haqimizda''),
                         ai_matched = True\<rparr>
   \<and> fst (detectNavigation (\<lambda>s q. Content (0xFEFF # js ''/about'' @ [0x00A0, 0x2029]))
              [] [navAbout] (js ''salom''))
       = NAVIGATION_ai \<lparr>ai_url = js ''/about'', ai_intent = Some (js ''Biz haqimizda''),
                         ai_matched = True\<rparr>"
proof -
  have f: "matchFAQ [] (js ''salom'') = None"
    by (simp add: matchFAQ_def)
  have k: "keywordMatch [navAbout] (js ''salom'') = None"
    by (simp add: string_eval matcher_eval input_eval)
  have t1: "trim (js ''/nowhere'') = js ''/nowhere''"
    and t2: "trim (js ''NOT_FOUND'') = js ''NOT_FOUND''"
    and t3: "trim (js ''/about'') = js ''/about''"
    and t4: "trim (0xFEFF # js ''/about'' @ [0x00A0, 0x2029]) = js ''/about''"
    by (simp_all add: trim_def isSpace_def js_def)
  have u: "nav_url ` set [navAbout] = {js ''/about''}"
    and i: "map_option nav_intent (find (\<lambda>item. nav_url item = js ''/about'') [navAbout])
              = Some (js ''Biz haqimizda'')"
    by (simp_all add: navAbout_def)
  have n1: "js ''/nowhere'' \<noteq> js ''/about''" and n2: "js ''/about'' \<noteq> js ''NOT_FOUND''"
    by (simp_all add: js_def)
  have d1: "fst (detectNavigation (\<lambda>s q. Threw) [] [navAbout] (js ''salom'')) = NOT_FOUND"
    using ai_reply_validated
      [of "[]" "js ''salom''" "[navAbout]" "\<lambda>s q. Threw", THEN conjunct1] f k
    by simp
  have d2: "fst (detectNavigation (\<lambda>s q. Content (js ''/nowhere'')) [] [navAbout] (js ''salom''))
      = NOT_FOUND"
    using ai_reply_validated
      [of "[]" "js ''salom''" "[navAbout]" "\<lambda>s q. Content (js ''/nowhere'')",
       THEN conjunct2, THEN conjunct1, rule_format, of "js ''/nowhere''"] f k t1 u n1
    by simp
  have d3: "fst (detectNavigation (\<lambda>s q. Content (js ''NOT_FOUND'')) [] [navAbout] (js ''salom''))
      = NOT_FOUND"
    using ai_reply_validated
      [of "[]" "js ''salom''" "[navAbout]" "\<lambda>s q. Content (js ''NOT_FOUND'')",
       THEN conjunct2, THEN conjunct1, rule_format, of "js ''NOT_FOUND''"] f k t2
    by simp
  have d4: "fst (detectNavigation (\<lambda>s q. Content (js ''/about'')) [] [navAbout] (js ''salom''))
      = NAVIGATION_ai \<lparr>ai_url = js ''/about'', ai_intent = Some (js ''Biz haqimizda''),
                        ai_matched = True\<rparr>"
    using ai_reply_validated
      [of "[]" "js ''salom''" "[navAbout]" "\<lambda>s q. Content (js ''/about'')",
       THEN conjunct2, THEN conjunct1, rule_format, of "js ''/about''"] f k t3 u i n2
    by simp
  have d5: "fst (detectNavigation (\<lambda>s q. Content (0xFEFF # js ''/about'' @ [0x00A0, 0x2029]))
                  [] [navAbout] (js ''salom''))
      = NAVIGATION_ai \<lparr>ai_url = js ''/about'', ai_intent = Some (js ''Biz haqimizda''),
                        ai_matched = True\<rparr>"
    using ai_reply_validated
      [of "[]" "js ''salom''" "[navAbout]"
          "\<lambda>s q. Content (0xFEFF # js ''/about'' @ [0x00A0, 0x2029])",
       THEN conjunct2, THEN conjunct1, rule_format,
       of "0xFEFF # js ''/about'' @ [0x00A0, 0x2029]"] f k t4 u i n2
    by simp
  from f k d1 d2 d3 d4 d5 show ?thesis by (intro conjI)
qed

section \<open>Rate limiter: the bound on the counter\<close>

lemma storeOk_update: "storeOk store \<Longrightarrow> recordOk r \<Longrightarrow> storeOk (AList.update k r store)"
  by (induction store) (auto simp add: storeOk_def)

lemma storeOk_delete: "storeOk store \<Longrightarrow> storeOk (AList.delete k store)"
  by (auto simp add: storeOk_def AList.delete_eq)

lemma storeOk_lookup: "storeOk store \<Longrightarrow> map_of store k = Some r \<Longrightarrow> recordOk r"
proof -
  assume ok: "storeOk store" and "map_of store k = Some r"
  then have "(k, r) \<in> set store" by (simp add: map_of_SomeD)
  with ok have "recordOk (snd (k, r))" unfolding storeOk_def by blast
  then show ?thesis by simp
qed

lemma stateOk_save: "stateOk st \<Longrightarrow> stateOk (saveRateLimits writeOk st)"
  by (simp add: stateOk_def saveRateLimits_def)

lemma stateOk_store:
  "stateOk st \<Longrightarrow> storeOk store \<Longrightarrow> stateOk (st\<lparr>requestStore := store\<rparr>)"
  by (simp add: stateOk_def)

lemma recordOk_fresh: "recordOk (freshRecord now)"
  by (simp add: recordOk_def freshRecord_def MAX_REQUESTS_def)

lemma recordOk_increment:
  "recordOk r \<Longrightarrow> \<not> rec_count r \<ge> MAX_REQUESTS \<Longrightarrow>
   recordOk (r\<lparr>rec_count := rec_count r + 1, rec_lastRequest := now\<rparr>)"
  by (simp add: recordOk_def)

lemma stateOk_rateLimiter:
  assumes "stateOk st"
  shows "stateOk (snd (rateLimiter writeOk identifier now st))"
proof (cases "map_of (requestStore st) identifier")
  case None
  have "storeOk (AList.update identifier (freshRecord now) (requestStore st))"
    using assms by (simp add: stateOk_def storeOk_update recordOk_fresh)
  with assms None show ?thesis
    by (simp add: rateLimiter_def stateOk_save stateOk_store)
next
  case (Some r)
  have st: "storeOk (requestStore st)" using assms by (simp add: stateOk_def)
  then have r: "recordOk r" using Some by (rule storeOk_lookup)
  have fresh: "stateOk (st\<lparr>requestStore := AList.update identifier (freshRecord now) (requestStore st)\<rparr>)"
    using assms st by (simp add: stateOk_store storeOk_update recordOk_fresh)
  have incr: "\<not> rec_count r \<ge> MAX_REQUESTS \<Longrightarrow>
      stateOk (st\<lparr>requestStore := AList.update identifier
                 (r\<lparr>rec_count := rec_count r + 1, rec_lastRequest := now\<rparr>) (requestStore st)\<rparr>)"
    using assms st r by (simp add: stateOk_store storeOk_update recordOk_increment)
  from Some assms fresh incr show ?thesis
    by (simp add: rateLimiter_def Let_def stateOk_save)
qed

lemma sweep_fold:
  "storeOk (fst acc) \<Longrightarrow> storeOk (fst (foldl (sweepStep now) acc entries))"
  by (induction entries arbitrary: acc) (simp_all add: sweepStep_def storeOk_delete)

lemma stateOk_sweep:
  assumes "stateOk st"
  shows "stateOk (sweep writeOk now st)"
proof -
  have "storeOk (fst (foldl (sweepStep now) (requestStore st, 0) (requestStore st)))"
    using assms by (simp add: sweep_fold stateOk_def)
  with assms show ?thesis
    by (simp add: sweep_def Let_def stateOk_save stateOk_store)
qed

lemma load_fold:
  "storeOk store \<Longrightarrow> storeOk data \<Longrightarrow>
   storeOk (foldl (\<lambda>store (key, val). AList.update key val store) store data)"
proof (induction data arbitrary: store)
  case Nil
  then show ?case by simp
next
  case (Cons entry data)
  from Cons.prems(2) have entry: "recordOk (snd entry)" and data: "storeOk data"
    by (simp_all add: storeOk_def)
  from Cons.prems(1) entry have "storeOk (AList.update (fst entry) (snd entry) store)"
    by (rule storeOk_update)
  then show ?case using data Cons.IH by (simp add: case_prod_unfold)
qed

lemma stateOk_startup:
  assumes "stateOk st"
  shows "stateOk (startup st)"
proof (cases "rateLimitFile st")
  case None
  with assms show ?thesis by (simp add: startup_def loadRateLimits_def stateOk_def storeOk_def)
next
  case (Some data)
  with assms have "storeOk data" by (simp add: stateOk_def)
  moreover have "storeOk []" by (simp add: storeOk_def)
  ultimately have "storeOk (foldl (\<lambda>store (key, val). AList.update key val store) [] data)"
    by (simp add: load_fold)
  with Some assms show ?thesis
    by (simp add: startup_def loadRateLimits_def stateOk_def)
qed

lemma reachable_stateOk: "reachable st \<Longrightarrow> stateOk st"
proof (induction rule: reachable.induct)
  case initial
  show ?case by (simp add: stateOk_def storeOk_def)
next
  case (request st writeOk ident now)
  then show ?case by (simp add: stateOk_rateLimiter)
next
  case (status st ident now)
  then show ?case by (simp add: getRateLimitStatus_def split: option.splits)
next
  case (swept st writeOk now)
  then show ?case by (simp add: stateOk_sweep)
next
  case (restart st)
  then show ?case by (simp add: stateOk_startup)
qed

text \<open>
  C9. In every state the process can reach from a start with an empty store and no file,
  each record of the store has a count of at least 1 and at most 30: a record is created
  with count 1 and its count grows only while it is below 30.
\<close>

theorem count_bounds:
  assumes "reachable st" and "(identifier, record) \<in> set (requestStore st)"
  shows "1 \<le> rec_count record \<and> rec_count record \<le> 30"
  using reachable_stateOk [OF assms(1)] assms(2)
  by (auto simp add: stateOk_def storeOk_def recordOk_def MAX_REQUESTS_def)

theorem count_bounds_witness:
  "reachable (snd (rateLimiter True ''a'' 7 \<lparr>requestStore = [], rateLimitFile = None\<rparr>))
   \<and> (''a'', freshRecord 7)
       \<in> set (requestStore
                (snd (rateLimiter True ''a'' 7 \<lparr>requestStore = [], rateLimitFile = None\<rparr>)))
   \<and> 1 \<le> rec_count (freshRecord 7) \<and> rec_count (freshRecord 7) \<le> 30"
proof -
  let ?st = "snd (rateLimiter True ''a'' 7 \<lparr>requestStore = [], rateLimitFile = None\<rparr>)"
  have r: "reachable ?st"
    by (rule reachable.request) (rule reachable.initial)
  have m: "(''a'', freshRecord 7) \<in> set (requestStore ?st)"
    by (simp add: rateLimiter_def saveRateLimits_def)
  from r m count_bounds [OF r m] show ?thesis by (intro conjI) simp_all
qed

end
